theory Spec2Isabelle
  imports Main
begin

section \<open>Characters, \<open>ord\<close> and \<open>chr\<close>\<close>

text \<open>
  A Python character (a \<open>str\<close> of length one) is modelled by its code point. Python's
  code points lie below \<open>0x110000\<close>; the theorems below hold for every natural number,
  hence for every character. Comparison of two one-character strings is comparison of
  their code points, so \<open>'a' <= ch\<close> is \<open>\<le>\<close> on \<open>pychar\<close>.
\<close>

type_synonym pychar = nat

definition codepoints :: "pychar set" where
  "codepoints = {c. c < 0x110000}"

text \<open>A character literal of the source, such as \<open>'a'\<close>.\<close>

definition lit :: "char \<Rightarrow> pychar" where
  "lit c = of_char c"

datatype error = ValueError | OverflowError | FileNotFoundError

definition ord :: "pychar \<Rightarrow> int" where
  "ord c = int c"

text \<open>
  \<open>chr(i)\<close> raises OverflowError when \<open>i\<close> does not fit a C int and ValueError when
  it is outside \<open>range(0x110000)\<close>.
\<close>

definition chr :: "int \<Rightarrow> error + pychar" where
  "chr i = (if i < - (2 ^ 31) \<or> 2 ^ 31 \<le> i then Inl OverflowError
            else if i < 0 \<or> 0x110000 \<le> i then Inl ValueError
            else Inr (nat i))"

section \<open>The four shift functions (Q1.py, lines 9 to 23)\<close>

text \<open>Python's \<open>%\<close> with a positive divisor is floor-mod, as \<open>mod\<close> on \<open>int\<close> is.\<close>

definition shift_lower_first :: "pychar \<Rightarrow> int \<Rightarrow> error + pychar" where
  "shift_lower_first c k =
     (let idx = (ord c - ord (lit CHR ''a'') + (k mod 13)) mod 13
      in chr (ord (lit CHR ''a'') + idx))"

definition shift_lower_second :: "pychar \<Rightarrow> int \<Rightarrow> error + pychar" where
  "shift_lower_second c k =
     (let idx = (ord c - ord (lit CHR ''n'') + (k mod 13)) mod 13
      in chr (ord (lit CHR ''n'') + idx))"

definition shift_upper_first :: "pychar \<Rightarrow> int \<Rightarrow> error + pychar" where
  "shift_upper_first c k =
     (let idx = (ord c - ord (lit CHR ''A'') + (k mod 13)) mod 13
      in chr (ord (lit CHR ''A'') + idx))"

definition shift_upper_second :: "pychar \<Rightarrow> int \<Rightarrow> error + pychar" where
  "shift_upper_second c k =
     (let idx = (ord c - ord (lit CHR ''N'') + (k mod 13)) mod 13
      in chr (ord (lit CHR ''N'') + idx))"

section \<open>Character dispatch (Q1.py, lines 27 to 60)\<close>

text \<open>The source's local \<open>prod\<close> is written \<open>prd\<close>: \<open>prod\<close> is a constant of HOL.\<close>

definition encrypt_character :: "pychar \<Rightarrow> int \<Rightarrow> int \<Rightarrow> error + pychar" where
  "encrypt_character ch shift1 shift2 =
     (let prd = shift1 * shift2;
          ssum = shift1 + shift2
      in if lit CHR ''a'' \<le> ch \<and> ch \<le> lit CHR ''z'' then
           (if ch \<le> lit CHR ''m'' then shift_lower_first ch prd
            else shift_lower_second ch (- ssum))
         else if lit CHR ''A'' \<le> ch \<and> ch \<le> lit CHR ''Z'' then
           (if ch \<le> lit CHR ''M'' then shift_upper_first ch (- shift1)
            else shift_upper_second ch (shift2 * shift2))
         else Inr ch)"

definition decrypt_character :: "pychar \<Rightarrow> int \<Rightarrow> int \<Rightarrow> error + pychar" where
  "decrypt_character ch shift1 shift2 =
     (let prd = shift1 * shift2;
          ssum = shift1 + shift2
      in if lit CHR ''a'' \<le> ch \<and> ch \<le> lit CHR ''z'' then
           (if ch \<le> lit CHR ''m'' then shift_lower_first ch (- prd)
            else shift_lower_second ch ssum)
         else if lit CHR ''A'' \<le> ch \<and> ch \<le> lit CHR ''Z'' then
           (if ch \<le> lit CHR ''M'' then shift_upper_first ch shift1
            else shift_upper_second ch (- (shift2 * shift2)))
         else Inr ch)"

section \<open>Whole texts and files (Q1.py, lines 63 to 77)\<close>

text \<open>
  \<open>''.join(f(c) for c in text)\<close>: the generator is consumed from left to right and the
  first exception raised by \<open>f\<close> ends the evaluation.
\<close>

fun join_gen :: "(pychar \<Rightarrow> error + pychar) \<Rightarrow> pychar list \<Rightarrow> error + pychar list" where
  "join_gen f [] = Inr []"
| "join_gen f (c # cs) =
     (case f c of
        Inl e \<Rightarrow> Inl e
      | Inr d \<Rightarrow> (case join_gen f cs of Inl e \<Rightarrow> Inl e | Inr ds \<Rightarrow> Inr (d # ds)))"

text \<open>Line 66 and line 74: the expression bound to \<open>enc\<close> and to \<open>dec\<close>.\<close>

definition enc_text :: "pychar list \<Rightarrow> int \<Rightarrow> int \<Rightarrow> error + pychar list" where
  "enc_text text shift1 shift2 = join_gen (\<lambda>c. encrypt_character c shift1 shift2) text"

definition dec_text :: "pychar list \<Rightarrow> int \<Rightarrow> int \<Rightarrow> error + pychar list" where
  "dec_text text shift1 shift2 = join_gen (\<lambda>c. decrypt_character c shift1 shift2) text"

text \<open>
  The files the program reads and writes, and what it has printed. A file's content is
  the text that \<open>f.read()\<close> returns for it; opening a missing file for reading raises
  FileNotFoundError, opening for writing creates or replaces the file.
\<close>

record world =
  files :: "string \<rightharpoonup> pychar list"
  stdout :: "string list"

definition RAW_FILE :: string where
  "RAW_FILE = ''raw_text.txt''"

definition ENC_FILE :: string where
  "ENC_FILE = ''encrypted_text.txt''"

definition DEC_FILE :: string where
  "DEC_FILE = ''decrypted_text.txt''"

definition encrypt_file :: "int \<Rightarrow> int \<Rightarrow> world \<Rightarrow> error + world" where
  "encrypt_file shift1 shift2 w =
     (case files w RAW_FILE of
        None \<Rightarrow> Inl FileNotFoundError
      | Some text \<Rightarrow>
          (case enc_text text shift1 shift2 of
             Inl e \<Rightarrow> Inl e
           | Inr enc \<Rightarrow>
               Inr (w\<lparr>files := (files w)(ENC_FILE \<mapsto> enc),
                      stdout := stdout w @
                        [''Encryption complete. Output written to 'encrypted_text.txt'.'']\<rparr>)))"

definition decrypt_file :: "int \<Rightarrow> int \<Rightarrow> world \<Rightarrow> error + world" where
  "decrypt_file shift1 shift2 w =
     (case files w ENC_FILE of
        None \<Rightarrow> Inl FileNotFoundError
      | Some text \<Rightarrow>
          (case dec_text text shift1 shift2 of
             Inl e \<Rightarrow> Inl e
           | Inr dec \<Rightarrow>
               Inr (w\<lparr>files := (files w)(DEC_FILE \<mapsto> dec),
                      stdout := stdout w @
                        [''Decryption complete. Output written to 'decrypted_text.txt'.'']\<rparr>)))"

section \<open>Character classes\<close>

definition lower_first :: "pychar set" where
  "lower_first = {c. lit CHR ''a'' \<le> c \<and> c \<le> lit CHR ''m''}"

definition lower_second :: "pychar set" where
  "lower_second = {c. lit CHR ''n'' \<le> c \<and> c \<le> lit CHR ''z''}"

definition upper_first :: "pychar set" where
  "upper_first = {c. lit CHR ''A'' \<le> c \<and> c \<le> lit CHR ''M''}"

definition upper_second :: "pychar set" where
  "upper_second = {c. lit CHR ''N'' \<le> c \<and> c \<le> lit CHR ''Z''}"

definition letters :: "pychar set" where
  "letters = lower_first \<union> lower_second \<union> upper_first \<union> upper_second"

section \<open>The rotation primitive of the specification\<close>

text \<open>
  Written from the specification's words, to be compared with the four shift functions:
  \<open>rotate(c, origin, amount)\<close> computes
  \<open>index = ((ord(c) - ord(origin)) + (amount mod 13)) mod 13\<close> with floor-mod and returns
  the character \<open>origin + index\<close>.
\<close>

definition rot_index :: "pychar \<Rightarrow> pychar \<Rightarrow> int \<Rightarrow> int" where
  "rot_index c origin amount = ((ord c - ord origin) + (amount mod 13)) mod 13"

definition rotate_spec :: "pychar \<Rightarrow> pychar \<Rightarrow> int \<Rightarrow> error + pychar" where
  "rotate_spec c origin amount = chr (ord origin + rot_index c origin amount)"

section \<open>Basic facts\<close>

lemma lit_values:
  "lit CHR ''a'' = 97" "lit CHR ''m'' = 109" "lit CHR ''n'' = 110" "lit CHR ''z'' = 122"
  "lit CHR ''A'' = 65" "lit CHR ''M'' = 77" "lit CHR ''N'' = 78" "lit CHR ''Z'' = 90"
  "lit CHR ''!'' = 33" "lit CHR ''t'' = 116" "lit CHR ''K'' = 75" "lit CHR ''Q'' = 81"
  by (simp_all add: lit_def)

lemma chr_small: "0 \<le> i \<Longrightarrow> i < 1114112 \<Longrightarrow> chr i = Inr (nat i)"
  by (simp add: chr_def)

lemma shift_lower_first_eq:
  "shift_lower_first c k = Inr (nat (97 + (int c - 97 + k mod 13) mod 13))"
proof -
  have "0 \<le> (int c - 97 + k mod 13) mod 13" "(int c - 97 + k mod 13) mod 13 < 13"
    by simp_all
  then show ?thesis
    by (simp add: shift_lower_first_def ord_def lit_values chr_small)
qed

lemma shift_lower_second_eq:
  "shift_lower_second c k = Inr (nat (110 + (int c - 110 + k mod 13) mod 13))"
proof -
  have "0 \<le> (int c - 110 + k mod 13) mod 13" "(int c - 110 + k mod 13) mod 13 < 13"
    by simp_all
  then show ?thesis
    by (simp add: shift_lower_second_def ord_def lit_values chr_small)
qed

lemma shift_upper_first_eq:
  "shift_upper_first c k = Inr (nat (65 + (int c - 65 + k mod 13) mod 13))"
proof -
  have "0 \<le> (int c - 65 + k mod 13) mod 13" "(int c - 65 + k mod 13) mod 13 < 13"
    by simp_all
  then show ?thesis
    by (simp add: shift_upper_first_def ord_def lit_values chr_small)
qed

lemma shift_upper_second_eq:
  "shift_upper_second c k = Inr (nat (78 + (int c - 78 + k mod 13) mod 13))"
proof -
  have "0 \<le> (int c - 78 + k mod 13) mod 13" "(int c - 78 + k mod 13) mod 13 < 13"
    by simp_all
  then show ?thesis
    by (simp add: shift_upper_second_def ord_def lit_values chr_small)
qed

lemma class_values:
  "c \<in> lower_first \<longleftrightarrow> 97 \<le> c \<and> c \<le> 109"
  "c \<in> lower_second \<longleftrightarrow> 110 \<le> c \<and> c \<le> 122"
  "c \<in> upper_first \<longleftrightarrow> 65 \<le> c \<and> c \<le> 77"
  "c \<in> upper_second \<longleftrightarrow> 78 \<le> c \<and> c \<le> 90"
  by (simp_all add: lower_first_def lower_second_def upper_first_def upper_second_def
      lit_values)

lemma letters_values:
  "c \<in> letters \<longleftrightarrow> (97 \<le> c \<and> c \<le> 122) \<or> (65 \<le> c \<and> c \<le> 90)"
  unfolding letters_def Un_iff class_values by arith

lemma rot_undo:
  fixes x k :: int
  assumes "0 \<le> x" "x < 13"
  shows "((x + k mod 13) mod 13 + (- k) mod 13) mod 13 = x"
  using assms by (simp add: mod_simps)

lemma rot_roundtrip:
  fixes b k :: int and c :: nat
  assumes "0 \<le> b" "b \<le> int c" "int c \<le> b + 12"
  shows "nat (b + (int (nat (b + (int c - b + k mod 13) mod 13)) - b + (- k) mod 13) mod 13) = c"
proof -
  define r where "r = (int c - b + k mod 13) mod 13"
  have r: "0 \<le> r" "r < 13"
    by (simp_all add: r_def)
  have "int (nat (b + r)) - b = r"
    using assms(1) r(1) by simp
  moreover have "(r + (- k) mod 13) mod 13 = int c - b"
    unfolding r_def using assms by (intro rot_undo) simp_all
  ultimately show ?thesis
    unfolding r_def [symmetric] by simp
qed

lemma rot_closed:
  fixes b k x :: int
  assumes "0 \<le> b"
  shows "nat b \<le> nat (b + (x + k mod 13) mod 13) \<and> nat (b + (x + k mod 13) mod 13) \<le> nat b + 12"
proof -
  have "0 \<le> (x + k mod 13) mod 13" "(x + k mod 13) mod 13 < 13"
    by simp_all
  with assms show ?thesis by linarith
qed

subsection \<open>Dispatch, class by class\<close>

lemma encrypt_lower_first:
  "c \<in> lower_first \<Longrightarrow> encrypt_character c k1 k2 = shift_lower_first c (k1 * k2)"
  by (simp add: encrypt_character_def class_values lit_values)

lemma encrypt_lower_second:
  "c \<in> lower_second \<Longrightarrow> encrypt_character c k1 k2 = shift_lower_second c (- (k1 + k2))"
  by (simp add: encrypt_character_def class_values lit_values)

lemma encrypt_upper_first:
  "c \<in> upper_first \<Longrightarrow> encrypt_character c k1 k2 = shift_upper_first c (- k1)"
  by (simp add: encrypt_character_def class_values lit_values)

lemma encrypt_upper_second:
  "c \<in> upper_second \<Longrightarrow> encrypt_character c k1 k2 = shift_upper_second c (k2 * k2)"
  by (simp add: encrypt_character_def class_values lit_values)

lemma encrypt_other:
  "c \<notin> letters \<Longrightarrow> encrypt_character c k1 k2 = Inr c"
  by (auto simp add: encrypt_character_def letters_values lit_values)

lemma decrypt_lower_first:
  "c \<in> lower_first \<Longrightarrow> decrypt_character c k1 k2 = shift_lower_first c (- (k1 * k2))"
  by (simp add: decrypt_character_def class_values lit_values)

lemma decrypt_lower_second:
  "c \<in> lower_second \<Longrightarrow> decrypt_character c k1 k2 = shift_lower_second c (k1 + k2)"
  by (simp add: decrypt_character_def class_values lit_values)

lemma decrypt_upper_first:
  "c \<in> upper_first \<Longrightarrow> decrypt_character c k1 k2 = shift_upper_first c k1"
  by (simp add: decrypt_character_def class_values lit_values)

lemma decrypt_upper_second:
  "c \<in> upper_second \<Longrightarrow> decrypt_character c k1 k2 = shift_upper_second c (- (k2 * k2))"
  by (simp add: decrypt_character_def class_values lit_values)

lemma decrypt_other:
  "c \<notin> letters \<Longrightarrow> decrypt_character c k1 k2 = Inr c"
  by (auto simp add: decrypt_character_def letters_values lit_values)

lemma class_cases:
  "c \<in> lower_first \<or> c \<in> lower_second \<or> c \<in> upper_first \<or> c \<in> upper_second \<or> c \<notin> letters"
  unfolding letters_values class_values by arith

subsection \<open>Each shift stays in its segment and is undone by the opposite shift\<close>

lemma shift_lower_first_closed: "shift_lower_first c k = Inr d \<Longrightarrow> d \<in> lower_first"
  using rot_closed [of 97 "int c - 97" k]
  by (auto simp add: shift_lower_first_eq class_values)

lemma shift_lower_second_closed: "shift_lower_second c k = Inr d \<Longrightarrow> d \<in> lower_second"
  using rot_closed [of 110 "int c - 110" k]
  by (auto simp add: shift_lower_second_eq class_values)

lemma shift_upper_first_closed: "shift_upper_first c k = Inr d \<Longrightarrow> d \<in> upper_first"
  using rot_closed [of 65 "int c - 65" k]
  by (auto simp add: shift_upper_first_eq class_values)

lemma shift_upper_second_closed: "shift_upper_second c k = Inr d \<Longrightarrow> d \<in> upper_second"
  using rot_closed [of 78 "int c - 78" k]
  by (auto simp add: shift_upper_second_eq class_values)

lemma shift_lower_first_undo:
  "c \<in> lower_first \<Longrightarrow> shift_lower_first c k = Inr d \<Longrightarrow> shift_lower_first d (- k) = Inr c"
  using rot_roundtrip [of 97 c k]
  by (auto simp add: shift_lower_first_eq class_values)

lemma shift_lower_second_undo:
  "c \<in> lower_second \<Longrightarrow> shift_lower_second c k = Inr d \<Longrightarrow> shift_lower_second d (- k) = Inr c"
  using rot_roundtrip [of 110 c k]
  by (auto simp add: shift_lower_second_eq class_values)

lemma shift_upper_first_undo:
  "c \<in> upper_first \<Longrightarrow> shift_upper_first c k = Inr d \<Longrightarrow> shift_upper_first d (- k) = Inr c"
  using rot_roundtrip [of 65 c k]
  by (auto simp add: shift_upper_first_eq class_values)

lemma shift_upper_second_undo:
  "c \<in> upper_second \<Longrightarrow> shift_upper_second c k = Inr d \<Longrightarrow> shift_upper_second d (- k) = Inr c"
  using rot_roundtrip [of 78 c k]
  by (auto simp add: shift_upper_second_eq class_values)

lemma encrypt_then_decrypt:
  "\<exists>e. encrypt_character c k1 k2 = Inr e \<and> decrypt_character e k1 k2 = Inr c"
proof -
  consider (lf) "c \<in> lower_first" | (ls) "c \<in> lower_second" | (uf) "c \<in> upper_first"
    | (us) "c \<in> upper_second" | (other) "c \<notin> letters"
    using class_cases [of c] by blast
  then show ?thesis
  proof cases
    case lf
    obtain e where e: "shift_lower_first c (k1 * k2) = Inr e"
      by (simp add: shift_lower_first_eq)
    have "e \<in> lower_first"
      using e by (rule shift_lower_first_closed)
    then have "decrypt_character e k1 k2 = Inr c"
      using shift_lower_first_undo [OF lf e] by (simp add: decrypt_lower_first)
    then show ?thesis
      using e lf by (simp add: encrypt_lower_first)
  next
    case ls
    obtain e where e: "shift_lower_second c (- (k1 + k2)) = Inr e"
      by (simp add: shift_lower_second_eq)
    have "e \<in> lower_second"
      using e by (rule shift_lower_second_closed)
    then have "decrypt_character e k1 k2 = Inr c"
      using shift_lower_second_undo [OF ls e] by (simp add: decrypt_lower_second add.commute)
    then show ?thesis
      using e ls by (simp add: encrypt_lower_second)
  next
    case uf
    obtain e where e: "shift_upper_first c (- k1) = Inr e"
      by (simp add: shift_upper_first_eq)
    have "e \<in> upper_first"
      using e by (rule shift_upper_first_closed)
    then have "decrypt_character e k1 k2 = Inr c"
      using shift_upper_first_undo [OF uf e] by (simp add: decrypt_upper_first)
    then show ?thesis
      using e uf by (simp add: encrypt_upper_first)
  next
    case us
    obtain e where e: "shift_upper_second c (k2 * k2) = Inr e"
      by (simp add: shift_upper_second_eq)
    have "e \<in> upper_second"
      using e by (rule shift_upper_second_closed)
    then have "decrypt_character e k1 k2 = Inr c"
      using shift_upper_second_undo [OF us e] by (simp add: decrypt_upper_second)
    then show ?thesis
      using e us by (simp add: encrypt_upper_second)
  next
    case other
    then show ?thesis
      by (simp add: encrypt_other decrypt_other)
  qed
qed

lemma decrypt_then_encrypt:
  "\<exists>d. decrypt_character c k1 k2 = Inr d \<and> encrypt_character d k1 k2 = Inr c"
proof -
  consider (lf) "c \<in> lower_first" | (ls) "c \<in> lower_second" | (uf) "c \<in> upper_first"
    | (us) "c \<in> upper_second" | (other) "c \<notin> letters"
    using class_cases [of c] by blast
  then show ?thesis
  proof cases
    case lf
    obtain d where d: "shift_lower_first c (- (k1 * k2)) = Inr d"
      by (simp add: shift_lower_first_eq)
    have "d \<in> lower_first"
      using d by (rule shift_lower_first_closed)
    then have "encrypt_character d k1 k2 = Inr c"
      using shift_lower_first_undo [OF lf d] by (simp add: encrypt_lower_first)
    then show ?thesis
      using d lf by (simp add: decrypt_lower_first)
  next
    case ls
    obtain d where d: "shift_lower_second c (k1 + k2) = Inr d"
      by (simp add: shift_lower_second_eq)
    have "d \<in> lower_second"
      using d by (rule shift_lower_second_closed)
    then have "encrypt_character d k1 k2 = Inr c"
      using shift_lower_second_undo [OF ls d] by (simp add: encrypt_lower_second)
    then show ?thesis
      using d ls by (simp add: decrypt_lower_second)
  next
    case uf
    obtain d where d: "shift_upper_first c k1 = Inr d"
      by (simp add: shift_upper_first_eq)
    have "d \<in> upper_first"
      using d by (rule shift_upper_first_closed)
    then have "encrypt_character d k1 k2 = Inr c"
      using shift_upper_first_undo [OF uf d] by (simp add: encrypt_upper_first)
    then show ?thesis
      using d uf by (simp add: decrypt_upper_first)
  next
    case us
    obtain d where d: "shift_upper_second c (- (k2 * k2)) = Inr d"
      by (simp add: shift_upper_second_eq)
    have "d \<in> upper_second"
      using d by (rule shift_upper_second_closed)
    then have "encrypt_character d k1 k2 = Inr c"
      using shift_upper_second_undo [OF us d] by (simp add: encrypt_upper_second)
    then show ?thesis
      using d us by (simp add: decrypt_upper_second)
  next
    case other
    then show ?thesis
      by (simp add: encrypt_other decrypt_other)
  qed
qed

section \<open>Round trip\<close>

text \<open>
  C1. For every character \<open>c\<close>, letter or not, and all integers \<open>key1\<close>, \<open>key2\<close> (zero and
  negative ones included), \<open>encrypt_character(c, key1, key2)\<close> returns a character, and
  \<open>decrypt_character\<close> with the same keys maps that character back to \<open>c\<close>.
\<close>

theorem round_trip_character:
  "\<exists>e. encrypt_character c key1 key2 = Inr e \<and> decrypt_character e key1 key2 = Inr c"
  by (rule encrypt_then_decrypt)

section \<open>The shift functions implement the rotation primitive\<close>

lemma rot_index_range: "0 \<le> rot_index c origin k \<and> rot_index c origin k < 13"
  by (simp add: rot_index_def)

text \<open>
  C2. For every character \<open>c\<close> and every integer \<open>k\<close>, of either sign, each shift function
  returns \<open>chr(ord(o) + index)\<close> for its origin \<open>o\<close> among \<open>'a'\<close>, \<open>'n'\<close>, \<open>'A'\<close>, \<open>'N'\<close>,
  where \<open>index = ((ord(c) - ord(o)) + (k mod 13)) mod 13\<close> with floor-mod; the index lies in
  \<open>[0, 13)\<close>, and the call of \<open>chr\<close> succeeds with the character \<open>o + index\<close>.
\<close>

theorem rotation_primitive:
  "shift_lower_first c k = rotate_spec c (lit CHR ''a'') k \<and>
   shift_lower_second c k = rotate_spec c (lit CHR ''n'') k \<and>
   shift_upper_first c k = rotate_spec c (lit CHR ''A'') k \<and>
   shift_upper_second c k = rotate_spec c (lit CHR ''N'') k \<and>
   0 \<le> rot_index c origin k \<and> rot_index c origin k < 13 \<and>
   shift_lower_first c k = Inr (lit CHR ''a'' + nat (rot_index c (lit CHR ''a'') k)) \<and>
   shift_lower_second c k = Inr (lit CHR ''n'' + nat (rot_index c (lit CHR ''n'') k)) \<and>
   shift_upper_first c k = Inr (lit CHR ''A'' + nat (rot_index c (lit CHR ''A'') k)) \<and>
   shift_upper_second c k = Inr (lit CHR ''N'' + nat (rot_index c (lit CHR ''N'') k))"
proof -
  have spec: "shift_lower_first c k = rotate_spec c (lit CHR ''a'') k"
    "shift_lower_second c k = rotate_spec c (lit CHR ''n'') k"
    "shift_upper_first c k = rotate_spec c (lit CHR ''A'') k"
    "shift_upper_second c k = rotate_spec c (lit CHR ''N'') k"
    by (simp_all add: shift_lower_first_def shift_lower_second_def shift_upper_first_def
        shift_upper_second_def rotate_spec_def rot_index_def)
  have val: "shift_lower_first c k = Inr (lit CHR ''a'' + nat (rot_index c (lit CHR ''a'') k))"
    "shift_lower_second c k = Inr (lit CHR ''n'' + nat (rot_index c (lit CHR ''n'') k))"
    "shift_upper_first c k = Inr (lit CHR ''A'' + nat (rot_index c (lit CHR ''A'') k))"
    "shift_upper_second c k = Inr (lit CHR ''N'' + nat (rot_index c (lit CHR ''N'') k))"
    by (simp_all add: shift_lower_first_eq shift_lower_second_eq shift_upper_first_eq
        shift_upper_second_eq rot_index_def ord_def lit_values nat_add_distrib)
  show ?thesis
    using spec val rot_index_range [of c origin k] by simp
qed

section \<open>Dispatch tables\<close>

lemma shift_as_rotate:
  "shift_lower_first c k = rotate_spec c (lit CHR ''a'') k"
  "shift_lower_second c k = rotate_spec c (lit CHR ''n'') k"
  "shift_upper_first c k = rotate_spec c (lit CHR ''A'') k"
  "shift_upper_second c k = rotate_spec c (lit CHR ''N'') k"
  by (simp_all add: shift_lower_first_def shift_lower_second_def shift_upper_first_def
      shift_upper_second_def rotate_spec_def rot_index_def)

lemma exactly_one_class:
  "(of_bool (c \<in> lower_first) + of_bool (c \<in> lower_second) + of_bool (c \<in> upper_first) +
    of_bool (c \<in> upper_second) + of_bool (c \<notin> letters) :: nat) = 1"
  by (auto simp add: class_values letters_values)

text \<open>
  C3. For all integers \<open>key1\<close>, \<open>key2\<close>, \<open>encrypt_character\<close> rotates a letter of \<open>a..m\<close> in
  segment \<open>'a'\<close> by \<open>key1 * key2\<close>, a letter of \<open>n..z\<close> in segment \<open>'n'\<close> by
  \<open>- (key1 + key2)\<close>, a letter of \<open>A..M\<close> in segment \<open>'A'\<close> by \<open>- key1\<close>, a letter of \<open>N..Z\<close> in
  segment \<open>'N'\<close> by \<open>key2 * key2\<close>, and returns any other character unchanged; every
  character is in exactly one of the five classes.
\<close>

theorem encode_dispatch:
  "(ch \<in> lower_first \<longrightarrow>
      encrypt_character ch key1 key2 = rotate_spec ch (lit CHR ''a'') (key1 * key2)) \<and>
   (ch \<in> lower_second \<longrightarrow>
      encrypt_character ch key1 key2 = rotate_spec ch (lit CHR ''n'') (- (key1 + key2))) \<and>
   (ch \<in> upper_first \<longrightarrow>
      encrypt_character ch key1 key2 = rotate_spec ch (lit CHR ''A'') (- key1)) \<and>
   (ch \<in> upper_second \<longrightarrow>
      encrypt_character ch key1 key2 = rotate_spec ch (lit CHR ''N'') (key2 * key2)) \<and>
   (ch \<notin> letters \<longrightarrow> encrypt_character ch key1 key2 = Inr ch) \<and>
   (of_bool (ch \<in> lower_first) + of_bool (ch \<in> lower_second) + of_bool (ch \<in> upper_first) +
    of_bool (ch \<in> upper_second) + of_bool (ch \<notin> letters) :: nat) = 1"
  using encrypt_lower_first [of ch key1 key2] encrypt_lower_second [of ch key1 key2]
    encrypt_upper_first [of ch key1 key2] encrypt_upper_second [of ch key1 key2]
    encrypt_other [of ch key1 key2] exactly_one_class [of ch]
  by (simp add: shift_as_rotate)

theorem encode_dispatch_witness:
  "lit CHR ''c'' \<in> lower_first \<and>
   encrypt_character (lit CHR ''c'') 5 (- 7) = rotate_spec (lit CHR ''c'') (lit CHR ''a'') (- 35) \<and>
   lit CHR ''x'' \<in> lower_second \<and>
   encrypt_character (lit CHR ''x'') 5 (- 7) = rotate_spec (lit CHR ''x'') (lit CHR ''n'') 2 \<and>
   lit CHR ''M'' \<in> upper_first \<and>
   encrypt_character (lit CHR ''M'') 5 (- 7) = rotate_spec (lit CHR ''M'') (lit CHR ''A'') (- 5) \<and>
   lit CHR ''N'' \<in> upper_second \<and>
   encrypt_character (lit CHR ''N'') 5 (- 7) = rotate_spec (lit CHR ''N'') (lit CHR ''N'') 49 \<and>
   lit CHR ''['' \<notin> letters \<and>
   encrypt_character (lit CHR ''['') 5 (- 7) = Inr (lit CHR ''['')"
  using encode_dispatch [of "lit CHR ''c''" 5 "- 7"] encode_dispatch [of "lit CHR ''x''" 5 "- 7"]
    encode_dispatch [of "lit CHR ''M''" 5 "- 7"] encode_dispatch [of "lit CHR ''N''" 5 "- 7"]
    encode_dispatch [of "lit CHR ''[''" 5 "- 7"]
  by (simp add: class_values letters_values lit_def)

text \<open>
  C4. \<open>decrypt_character\<close> classifies its argument by the same test as
  \<open>encrypt_character\<close> and rotates by the opposite amount: segment \<open>'a'\<close> by
  \<open>- (key1 * key2)\<close>, segment \<open>'n'\<close> by \<open>key1 + key2\<close>, segment \<open>'A'\<close> by \<open>key1\<close>, segment
  \<open>'N'\<close> by \<open>- (key2 * key2)\<close>; a character that is not a letter is returned unchanged.
\<close>

theorem decode_dispatch:
  "(ch \<in> lower_first \<longrightarrow>
      decrypt_character ch key1 key2 = rotate_spec ch (lit CHR ''a'') (- (key1 * key2))) \<and>
   (ch \<in> lower_second \<longrightarrow>
      decrypt_character ch key1 key2 = rotate_spec ch (lit CHR ''n'') (key1 + key2)) \<and>
   (ch \<in> upper_first \<longrightarrow>
      decrypt_character ch key1 key2 = rotate_spec ch (lit CHR ''A'') key1) \<and>
   (ch \<in> upper_second \<longrightarrow>
      decrypt_character ch key1 key2 = rotate_spec ch (lit CHR ''N'') (- (key2 * key2))) \<and>
   (ch \<notin> letters \<longrightarrow> decrypt_character ch key1 key2 = Inr ch)"
  using decrypt_lower_first [of ch key1 key2] decrypt_lower_second [of ch key1 key2]
    decrypt_upper_first [of ch key1 key2] decrypt_upper_second [of ch key1 key2]
    decrypt_other [of ch key1 key2]
  by (simp add: shift_as_rotate)

theorem decode_dispatch_witness:
  "lit CHR ''a'' \<in> lower_first \<and>
   decrypt_character (lit CHR ''a'') (- 2) 9 = rotate_spec (lit CHR ''a'') (lit CHR ''a'') 18 \<and>
   lit CHR ''n'' \<in> lower_second \<and>
   decrypt_character (lit CHR ''n'') (- 2) 9 = rotate_spec (lit CHR ''n'') (lit CHR ''n'') 7 \<and>
   lit CHR ''B'' \<in> upper_first \<and>
   decrypt_character (lit CHR ''B'') (- 2) 9 = rotate_spec (lit CHR ''B'') (lit CHR ''A'') (- 2) \<and>
   lit CHR ''Z'' \<in> upper_second \<and>
   decrypt_character (lit CHR ''Z'') (- 2) 9 = rotate_spec (lit CHR ''Z'') (lit CHR ''N'') (- 81) \<and>
   lit CHR ''7'' \<notin> letters \<and>
   decrypt_character (lit CHR ''7'') (- 2) 9 = Inr (lit CHR ''7'')"
  using decode_dispatch [of "lit CHR ''a''" "- 2" 9] decode_dispatch [of "lit CHR ''n''" "- 2" 9]
    decode_dispatch [of "lit CHR ''B''" "- 2" 9] decode_dispatch [of "lit CHR ''Z''" "- 2" 9]
    decode_dispatch [of "lit CHR ''7''" "- 2" 9]
  by (simp add: class_values letters_values lit_def)

section \<open>Class closure and passthrough\<close>

lemma encrypt_closed:
  "c \<in> lower_first \<Longrightarrow> \<exists>d. encrypt_character c k1 k2 = Inr d \<and> d \<in> lower_first"
  "c \<in> lower_second \<Longrightarrow> \<exists>d. encrypt_character c k1 k2 = Inr d \<and> d \<in> lower_second"
  "c \<in> upper_first \<Longrightarrow> \<exists>d. encrypt_character c k1 k2 = Inr d \<and> d \<in> upper_first"
  "c \<in> upper_second \<Longrightarrow> \<exists>d. encrypt_character c k1 k2 = Inr d \<and> d \<in> upper_second"
  using shift_lower_first_closed [of c "k1 * k2"] shift_lower_second_closed [of c "- (k1 + k2)"]
    shift_upper_first_closed [of c "- k1"] shift_upper_second_closed [of c "k2 * k2"]
  by (simp_all add: encrypt_lower_first encrypt_lower_second encrypt_upper_first
      encrypt_upper_second shift_lower_first_eq shift_lower_second_eq shift_upper_first_eq
      shift_upper_second_eq)

lemma decrypt_closed:
  "c \<in> lower_first \<Longrightarrow> \<exists>d. decrypt_character c k1 k2 = Inr d \<and> d \<in> lower_first"
  "c \<in> lower_second \<Longrightarrow> \<exists>d. decrypt_character c k1 k2 = Inr d \<and> d \<in> lower_second"
  "c \<in> upper_first \<Longrightarrow> \<exists>d. decrypt_character c k1 k2 = Inr d \<and> d \<in> upper_first"
  "c \<in> upper_second \<Longrightarrow> \<exists>d. decrypt_character c k1 k2 = Inr d \<and> d \<in> upper_second"
  using shift_lower_first_closed [of c "- (k1 * k2)"] shift_lower_second_closed [of c "k1 + k2"]
    shift_upper_first_closed [of c k1] shift_upper_second_closed [of c "- (k2 * k2)"]
  by (simp_all add: decrypt_lower_first decrypt_lower_second decrypt_upper_first
      decrypt_upper_second shift_lower_first_eq shift_lower_second_eq shift_upper_first_eq
      shift_upper_second_eq)

text \<open>
  C5. For all integers \<open>key1\<close>, \<open>key2\<close> and each of the four classes \<open>a..m\<close>, \<open>n..z\<close>,
  \<open>A..M\<close>, \<open>N..Z\<close>: \<open>encrypt_character\<close> and \<open>decrypt_character\<close> map a character of the class
  to a character of the same class.
\<close>

theorem class_closure:
  assumes "S \<in> {lower_first, lower_second, upper_first, upper_second}" and "c \<in> S"
  shows "(\<exists>e. encrypt_character c key1 key2 = Inr e \<and> e \<in> S) \<and>
         (\<exists>d. decrypt_character c key1 key2 = Inr d \<and> d \<in> S)"
  using assms encrypt_closed [of c key1 key2] decrypt_closed [of c key1 key2]
  by auto

theorem class_closure_witness:
  "lower_second \<in> {lower_first, lower_second, upper_first, upper_second} \<and>
   lit CHR ''q'' \<in> lower_second \<and>
   (\<exists>e. encrypt_character (lit CHR ''q'') (- 100) 3 = Inr e \<and> e \<in> lower_second) \<and>
   (\<exists>d. decrypt_character (lit CHR ''q'') (- 100) 3 = Inr d \<and> d \<in> lower_second)"
proof -
  have s: "lower_second \<in> {lower_first, lower_second, upper_first, upper_second}"
    by simp
  have q: "lit CHR ''q'' \<in> lower_second"
    by (simp add: class_values lit_def)
  show ?thesis
    using s q class_closure [OF s q, of "- 100" 3] by simp
qed

text \<open>
  C6. For every character \<open>c\<close> outside \<open>[a-zA-Z]\<close> and all integers \<open>key1\<close>, \<open>key2\<close>, both
  \<open>encrypt_character\<close> and \<open>decrypt_character\<close> return \<open>c\<close>.
\<close>

theorem passthrough:
  "c \<notin> letters \<Longrightarrow>
     encrypt_character c key1 key2 = Inr c \<and> decrypt_character c key1 key2 = Inr c"
  by (simp add: encrypt_other decrypt_other)

theorem passthrough_witness:
  "lit CHR 0x0A \<notin> letters \<and>
   encrypt_character (lit CHR 0x0A) 12 (- 5) = Inr (lit CHR 0x0A) \<and>
   decrypt_character (lit CHR 0x0A) 12 (- 5) = Inr (lit CHR 0x0A)"
proof -
  have n: "lit CHR 0x0A \<notin> letters"
    by (simp add: letters_values lit_def)
  show ?thesis
    using n passthrough [OF n, of 12 "- 5"] by simp
qed

section \<open>Whole texts\<close>

lemma join_gen_map:
  "(\<And>c. c \<in> set cs \<Longrightarrow> f c = Inr (g c)) \<Longrightarrow> join_gen f cs = Inr (map g cs)"
  by (induction cs) simp_all

lemma encrypt_total: "encrypt_character c k1 k2 = Inr (projr (encrypt_character c k1 k2))"
  using encrypt_then_decrypt [of c k1 k2] by auto

lemma decrypt_total: "decrypt_character c k1 k2 = Inr (projr (decrypt_character c k1 k2))"
  using decrypt_then_encrypt [of c k1 k2] by auto

lemma enc_text_map:
  "enc_text T k1 k2 = Inr (map (\<lambda>c. projr (encrypt_character c k1 k2)) T)"
  unfolding enc_text_def by (rule join_gen_map) (rule encrypt_total)

lemma dec_text_map:
  "dec_text T k1 k2 = Inr (map (\<lambda>c. projr (decrypt_character c k1 k2)) T)"
  unfolding dec_text_def by (rule join_gen_map) (rule decrypt_total)

text \<open>
  C7. For every text \<open>T\<close> and all integers \<open>key1\<close>, \<open>key2\<close>, the encryption and the
  decryption of \<open>T\<close> succeed, each output has exactly \<open>len(T)\<close> characters, character \<open>i\<close>
  of the output is the transform of character \<open>i\<close> of \<open>T\<close>, and a character that is not a
  letter is unchanged at its position. \<open>encrypt_file\<close> writes this encryption of the raw
  file's text to the encrypted file, and \<open>decrypt_file\<close> writes this decryption of the
  encrypted file's text to the decrypted file.
\<close>

theorem text_transform:
  "\<exists>enc dec.
     enc_text T key1 key2 = Inr enc \<and> dec_text T key1 key2 = Inr dec \<and>
     length enc = length T \<and> length dec = length T \<and>
     (\<forall>i<length T. encrypt_character (T ! i) key1 key2 = Inr (enc ! i) \<and>
                    decrypt_character (T ! i) key1 key2 = Inr (dec ! i)) \<and>
     (\<forall>i<length T. T ! i \<notin> letters \<longrightarrow> enc ! i = T ! i \<and> dec ! i = T ! i) \<and>
     (files w RAW_FILE = Some T \<longrightarrow>
        (\<exists>w'. encrypt_file key1 key2 w = Inr w' \<and> files w' ENC_FILE = Some enc)) \<and>
     (files w ENC_FILE = Some T \<longrightarrow>
        (\<exists>w'. decrypt_file key1 key2 w = Inr w' \<and> files w' DEC_FILE = Some dec))"
proof -
  define enc where "enc = map (\<lambda>c. projr (encrypt_character c key1 key2)) T"
  define dec where "dec = map (\<lambda>c. projr (decrypt_character c key1 key2)) T"
  have e: "enc_text T key1 key2 = Inr enc"
    unfolding enc_def by (rule enc_text_map)
  have d: "dec_text T key1 key2 = Inr dec"
    unfolding dec_def by (rule dec_text_map)
  have len: "length enc = length T" "length dec = length T"
    by (simp_all add: enc_def dec_def)
  have pointwise: "encrypt_character (T ! i) key1 key2 = Inr (enc ! i)"
    "decrypt_character (T ! i) key1 key2 = Inr (dec ! i)" if "i < length T" for i
    using that encrypt_total [of "T ! i" key1 key2] decrypt_total [of "T ! i" key1 key2]
    by (simp_all add: enc_def dec_def)
  have other: "enc ! i = T ! i \<and> dec ! i = T ! i" if "i < length T" "T ! i \<notin> letters" for i
    using that by (simp add: enc_def dec_def encrypt_other decrypt_other)
  have fe: "\<exists>w'. encrypt_file key1 key2 w = Inr w' \<and> files w' ENC_FILE = Some enc"
    if "files w RAW_FILE = Some T"
    using that e by (simp add: encrypt_file_def)
  have fd: "\<exists>w'. decrypt_file key1 key2 w = Inr w' \<and> files w' DEC_FILE = Some dec"
    if "files w ENC_FILE = Some T"
    using that d by (simp add: decrypt_file_def)
  show ?thesis
    using e d len pointwise other fe fd by blast
qed

theorem text_transform_witness:
  "files \<lparr>files = [RAW_FILE \<mapsto> [lit CHR ''h'', lit CHR '' '', lit CHR ''Z''],
                    ENC_FILE \<mapsto> [lit CHR ''h'', lit CHR '' '', lit CHR ''Z'']],
          stdout = []\<rparr> RAW_FILE = Some [lit CHR ''h'', lit CHR '' '', lit CHR ''Z''] \<and>
   files \<lparr>files = [RAW_FILE \<mapsto> [lit CHR ''h'', lit CHR '' '', lit CHR ''Z''],
                    ENC_FILE \<mapsto> [lit CHR ''h'', lit CHR '' '', lit CHR ''Z'']],
          stdout = []\<rparr> ENC_FILE = Some [lit CHR ''h'', lit CHR '' '', lit CHR ''Z''] \<and>
   (1::nat) < length [lit CHR ''h'', lit CHR '' '', lit CHR ''Z''] \<and>
   [lit CHR ''h'', lit CHR '' '', lit CHR ''Z''] ! 1 \<notin> letters \<and>
   (\<exists>enc dec.
     enc_text [lit CHR ''h'', lit CHR '' '', lit CHR ''Z''] 3 4 = Inr enc \<and>
     dec_text [lit CHR ''h'', lit CHR '' '', lit CHR ''Z''] 3 4 = Inr dec \<and>
     length enc = 3 \<and> length dec = 3 \<and>
     encrypt_character (lit CHR '' '') 3 4 = Inr (enc ! 1) \<and>
     decrypt_character (lit CHR '' '') 3 4 = Inr (dec ! 1) \<and>
     enc ! 1 = lit CHR '' '' \<and> dec ! 1 = lit CHR '' '' \<and>
     (\<exists>w'. encrypt_file 3 4
              \<lparr>files = [RAW_FILE \<mapsto> [lit CHR ''h'', lit CHR '' '', lit CHR ''Z''],
                         ENC_FILE \<mapsto> [lit CHR ''h'', lit CHR '' '', lit CHR ''Z'']],
               stdout = []\<rparr> = Inr w' \<and> files w' ENC_FILE = Some enc) \<and>
     (\<exists>w'. decrypt_file 3 4
              \<lparr>files = [RAW_FILE \<mapsto> [lit CHR ''h'', lit CHR '' '', lit CHR ''Z''],
                         ENC_FILE \<mapsto> [lit CHR ''h'', lit CHR '' '', lit CHR ''Z'']],
               stdout = []\<rparr> = Inr w' \<and> files w' DEC_FILE = Some dec))"
proof -
  let ?T = "[lit CHR ''h'', lit CHR '' '', lit CHR ''Z'']"
  let ?w = "\<lparr>files = [RAW_FILE \<mapsto> ?T, ENC_FILE \<mapsto> ?T], stdout = []\<rparr>"
  have raw: "files ?w RAW_FILE = Some ?T"
    by (simp add: RAW_FILE_def ENC_FILE_def)
  have encf: "files ?w ENC_FILE = Some ?T"
    by simp
  have len: "(1::nat) < length ?T"
    by simp
  have sp: "?T ! 1 \<notin> letters"
    by (simp add: letters_values lit_def)
  obtain enc dec where h:
    "enc_text ?T 3 4 = Inr enc" "dec_text ?T 3 4 = Inr dec"
    "length enc = length ?T" "length dec = length ?T"
    "\<forall>i<length ?T. encrypt_character (?T ! i) 3 4 = Inr (enc ! i) \<and>
                    decrypt_character (?T ! i) 3 4 = Inr (dec ! i)"
    "\<forall>i<length ?T. ?T ! i \<notin> letters \<longrightarrow> enc ! i = ?T ! i \<and> dec ! i = ?T ! i"
    "files ?w RAW_FILE = Some ?T \<longrightarrow>
        (\<exists>w'. encrypt_file 3 4 ?w = Inr w' \<and> files w' ENC_FILE = Some enc)"
    "files ?w ENC_FILE = Some ?T \<longrightarrow>
        (\<exists>w'. decrypt_file 3 4 ?w = Inr w' \<and> files w' DEC_FILE = Some dec)"
    using text_transform [of ?T 3 4 ?w] by blast
  have p1: "encrypt_character (lit CHR '' '') 3 4 = Inr (enc ! 1)"
    "decrypt_character (lit CHR '' '') 3 4 = Inr (dec ! 1)"
    using h(5) len by (auto dest: spec [of _ 1])
  have p2: "enc ! 1 = lit CHR '' ''" "dec ! 1 = lit CHR '' ''"
    using h(6) len sp by (auto dest: spec [of _ 1])
  have l3: "length enc = 3" "length dec = 3"
    using h(3,4) by simp_all
  show ?thesis
    using raw encf len sp h(1,2) l3 p1 p2 h(7) h(8) by blast
qed

section \<open>Encryption and decryption are bijections\<close>

lemma letters_codepoints: "c \<in> letters \<Longrightarrow> c \<in> codepoints"
  by (auto simp add: letters_values codepoints_def)

lemma letters_union: "c \<in> letters \<longleftrightarrow>
    c \<in> lower_first \<or> c \<in> lower_second \<or> c \<in> upper_first \<or> c \<in> upper_second"
  by (simp add: letters_def)

lemma encrypt_codepoints:
  assumes "c \<in> codepoints"
  shows "projr (encrypt_character c k1 k2) \<in> codepoints"
proof (cases "c \<in> letters")
  case True
  then have "projr (encrypt_character c k1 k2) \<in> letters"
    using encrypt_closed [of c k1 k2] by (auto simp add: letters_union)
  then show ?thesis
    by (rule letters_codepoints)
next
  case False
  then show ?thesis
    using assms by (simp add: encrypt_other)
qed

lemma decrypt_codepoints:
  assumes "c \<in> codepoints"
  shows "projr (decrypt_character c k1 k2) \<in> codepoints"
proof (cases "c \<in> letters")
  case True
  then have "projr (decrypt_character c k1 k2) \<in> letters"
    using decrypt_closed [of c k1 k2] by (auto simp add: letters_union)
  then show ?thesis
    by (rule letters_codepoints)
next
  case False
  then show ?thesis
    using assms by (simp add: decrypt_other)
qed

lemma projr_decrypt_encrypt:
  "projr (decrypt_character (projr (encrypt_character c k1 k2)) k1 k2) = c"
  using encrypt_then_decrypt [of c k1 k2] by auto

lemma projr_encrypt_decrypt:
  "projr (encrypt_character (projr (decrypt_character c k1 k2)) k1 k2) = c"
  using decrypt_then_encrypt [of c k1 k2] by auto

lemma encrypt_bij:
  "bij_betw (\<lambda>x. projr (encrypt_character x k1 k2)) codepoints codepoints"
  by (rule bij_betw_byWitness [where f' = "\<lambda>x. projr (decrypt_character x k1 k2)"])
    (auto simp add: projr_decrypt_encrypt projr_encrypt_decrypt encrypt_codepoints
      decrypt_codepoints)

lemma decrypt_bij:
  "bij_betw (\<lambda>x. projr (decrypt_character x k1 k2)) codepoints codepoints"
  by (rule bij_betw_byWitness [where f' = "\<lambda>x. projr (encrypt_character x k1 k2)"])
    (auto simp add: projr_decrypt_encrypt projr_encrypt_decrypt encrypt_codepoints
      decrypt_codepoints)

text \<open>
  C9. For every character \<open>c\<close> and all integers \<open>key1\<close>, \<open>key2\<close>, \<open>decrypt_character\<close> returns
  a character that \<open>encrypt_character\<close> with the same keys maps back to \<open>c\<close>; both functions
  return a character on every input, and for fixed keys each is a bijection on the set of
  code points.
\<close>

theorem encrypt_inverts_decrypt:
  "(\<exists>d. decrypt_character c key1 key2 = Inr d \<and> encrypt_character d key1 key2 = Inr c) \<and>
   (\<exists>e. encrypt_character c key1 key2 = Inr e) \<and>
   bij_betw (\<lambda>x. projr (encrypt_character x key1 key2)) codepoints codepoints \<and>
   bij_betw (\<lambda>x. projr (decrypt_character x key1 key2)) codepoints codepoints"
  using decrypt_then_encrypt [of c key1 key2] encrypt_then_decrypt [of c key1 key2]
    encrypt_bij [of key1 key2] decrypt_bij [of key1 key2]
  by blast

section \<open>Keys matter only modulo 13\<close>

lemma shift_cong:
  assumes "k mod 13 = j mod 13"
  shows "shift_lower_first c k = shift_lower_first c j"
    and "shift_lower_second c k = shift_lower_second c j"
    and "shift_upper_first c k = shift_upper_first c j"
    and "shift_upper_second c k = shift_upper_second c j"
  using assms
  by (simp_all add: shift_lower_first_def shift_lower_second_def shift_upper_first_def
      shift_upper_second_def)

lemma encrypt_cong:
  assumes "(k1 * k2) mod 13 = (j1 * j2) mod 13" "(k1 + k2) mod 13 = (j1 + j2) mod 13"
    "k1 mod 13 = j1 mod 13" "(k2 * k2) mod 13 = (j2 * j2) mod 13"
  shows "encrypt_character c k1 k2 = encrypt_character c j1 j2"
proof -
  have "shift_lower_first c (k1 * k2) = shift_lower_first c (j1 * j2)"
    using assms(1) by (rule shift_cong)
  moreover have "shift_lower_second c (- (k1 + k2)) = shift_lower_second c (- (j1 + j2))"
    using mod_minus_cong [OF assms(2)] by (rule shift_cong)
  moreover have "shift_upper_first c (- k1) = shift_upper_first c (- j1)"
    using mod_minus_cong [OF assms(3)] by (rule shift_cong)
  moreover have "shift_upper_second c (k2 * k2) = shift_upper_second c (j2 * j2)"
    using assms(4) by (rule shift_cong)
  ultimately show ?thesis
    by (simp add: encrypt_character_def)
qed

text \<open>
  C10. Each of the four shift functions gives the same result for \<open>k\<close> and \<open>k + 13\<close>, for
  every character and every integer \<open>k\<close>; and two key pairs whose amounts \<open>key1 * key2\<close>,
  \<open>key1 + key2\<close>, \<open>key1\<close> and \<open>key2 * key2\<close> agree modulo 13 encrypt every text to the same
  result.
\<close>

theorem key_periodicity:
  "shift_lower_first c k = shift_lower_first c (k + 13) \<and>
   shift_lower_second c k = shift_lower_second c (k + 13) \<and>
   shift_upper_first c k = shift_upper_first c (k + 13) \<and>
   shift_upper_second c k = shift_upper_second c (k + 13) \<and>
   ((key1 * key2) mod 13 = (j1 * j2) mod 13 \<and> (key1 + key2) mod 13 = (j1 + j2) mod 13 \<and>
    key1 mod 13 = j1 mod 13 \<and> (key2 * key2) mod 13 = (j2 * j2) mod 13 \<longrightarrow>
      enc_text T key1 key2 = enc_text T j1 j2)"
proof -
  have "k mod 13 = (k + 13) mod 13"
    by simp
  then have per: "shift_lower_first c k = shift_lower_first c (k + 13)"
    "shift_lower_second c k = shift_lower_second c (k + 13)"
    "shift_upper_first c k = shift_upper_first c (k + 13)"
    "shift_upper_second c k = shift_upper_second c (k + 13)"
    by (rule shift_cong)+
  have "enc_text T key1 key2 = enc_text T j1 j2"
    if "(key1 * key2) mod 13 = (j1 * j2) mod 13" "(key1 + key2) mod 13 = (j1 + j2) mod 13"
      "key1 mod 13 = j1 mod 13" "(key2 * key2) mod 13 = (j2 * j2) mod 13"
    using encrypt_cong [OF that] by (simp add: enc_text_def)
  with per show ?thesis
    by blast
qed

theorem key_periodicity_witness:
  "((1::int) * 2) mod 13 = (14 * (- 11)) mod 13 \<and> ((1::int) + 2) mod 13 = (14 + (- 11)) mod 13 \<and>
   (1::int) mod 13 = 14 mod 13 \<and> ((2::int) * 2) mod 13 = ((- 11) * (- 11)) mod 13 \<and>
   enc_text [lit CHR ''k'', lit CHR ''e'', lit CHR ''Y'', lit CHR ''s'', lit CHR ''!''] 1 2 =
   enc_text [lit CHR ''k'', lit CHR ''e'', lit CHR ''Y'', lit CHR ''s'', lit CHR ''!''] 14 (- 11)"
proof -
  have h: "((1::int) * 2) mod 13 = (14 * (- 11)) mod 13 \<and>
      ((1::int) + 2) mod 13 = (14 + (- 11)) mod 13 \<and>
      (1::int) mod 13 = 14 mod 13 \<and> ((2::int) * 2) mod 13 = ((- 11) * (- 11)) mod 13"
    by simp
  show ?thesis
    using h key_periodicity [of _ _ 1 2 14 "- 11"
        "[lit CHR ''k'', lit CHR ''e'', lit CHR ''Y'', lit CHR ''s'', lit CHR ''!'']"]
    by blast
qed

section \<open>Concrete scenarios\<close>

text \<open>
  C8. With keys 3 and 4, encrypting \<open>'a'\<close>, \<open>'n'\<close>, \<open>'A'\<close>, \<open>'N'\<close> gives \<open>'m'\<close>, \<open>'t'\<close>,
  \<open>'K'\<close>, \<open>'Q'\<close>; encrypting \<open>'!'\<close> with keys 5 and 7 gives \<open>'!'\<close>; and decrypting each of
  the four letter results with keys 3 and 4 gives the original letter back.
\<close>

theorem concrete_scenarios:
  "encrypt_character (lit CHR ''a'') 3 4 = Inr (lit CHR ''m'') \<and>
   encrypt_character (lit CHR ''n'') 3 4 = Inr (lit CHR ''t'') \<and>
   encrypt_character (lit CHR ''A'') 3 4 = Inr (lit CHR ''K'') \<and>
   encrypt_character (lit CHR ''N'') 3 4 = Inr (lit CHR ''Q'') \<and>
   encrypt_character (lit CHR ''!'') 5 7 = Inr (lit CHR ''!'') \<and>
   decrypt_character (lit CHR ''m'') 3 4 = Inr (lit CHR ''a'') \<and>
   decrypt_character (lit CHR ''t'') 3 4 = Inr (lit CHR ''n'') \<and>
   decrypt_character (lit CHR ''K'') 3 4 = Inr (lit CHR ''A'') \<and>
   decrypt_character (lit CHR ''Q'') 3 4 = Inr (lit CHR ''N'')"
  by (simp add: encrypt_character_def decrypt_character_def lit_values
      shift_lower_first_eq shift_lower_second_eq shift_upper_first_eq shift_upper_second_eq)

end
